theory Spec2Isabelle
  imports Main "HOL-Library.Sublist"
begin

section \<open>JavaScript values\<close>

text \<open>
  The values that reach \<^verbatim>\<open>src/shared/api.ts\<close>. \<open>JSON.parse\<close> yields null, booleans,
  numbers, strings, arrays and plain objects; reading a property adds \<open>undefined\<close> (a key
  that is not there) and what a plain object inherits from \<open>Object.prototype\<close> (its
  built-in functions, and the prototype object itself under \<open>__proto__\<close>);
  \<open>Schemas.date\<close> adds \<open>Date\<close> objects. The code never looks inside a number, so the
  type of numbers is a parameter. An object is the list of its own enumerable properties
  in enumeration order, the order \<open>_.forOwn\<close> and \<open>_.mapValues\<close> visit them in.
\<close>

datatype 'n jsval =
    JUndefined
  | JNull
  | JBool bool
  | JNum 'n
  | JStr string
  | JArr "'n jsval list"
  | JObj "(string \<times> 'n jsval) list"
  | JDate 'n
  | JFunction string
  | JObjectPrototype

fun typeof :: "'n jsval \<Rightarrow> string" where
  "typeof JUndefined = ''undefined''"
| "typeof (JBool b) = ''boolean''"
| "typeof (JNum n) = ''number''"
| "typeof (JStr s) = ''string''"
| "typeof (JFunction f) = ''function''"
| "typeof v = ''object''"

text \<open>\<open>_.isArray\<close>, and \<open>_.isPlainObject\<close>: an object whose prototype is
  \<open>Object.prototype\<close> or null (\<open>Object.prototype\<close> itself is one).\<close>

fun isArray :: "'n jsval \<Rightarrow> bool" where
  "isArray (JArr xs) = True"
| "isArray v = False"

fun isPlainObject :: "'n jsval \<Rightarrow> bool" where
  "isPlainObject (JObj ps) = True"
| "isPlainObject JObjectPrototype = True"
| "isPlainObject v = False"

text \<open>The own enumerable properties of a value that passed \<open>_.isPlainObject\<close>; the
  properties of \<open>Object.prototype\<close> are not enumerable.\<close>

fun ownEntries :: "'n jsval \<Rightarrow> (string \<times> 'n jsval) list" where
  "ownEntries (JObj ps) = ps"
| "ownEntries v = []"

text \<open>The properties every plain object inherits from \<open>Object.prototype\<close>: eleven
  built-in functions and the accessor \<open>__proto__\<close>.\<close>

definition Object_prototype_functions :: "string list" where
  "Object_prototype_functions =
     [''constructor'', ''hasOwnProperty'', ''isPrototypeOf'', ''propertyIsEnumerable'',
      ''toLocaleString'', ''toString'', ''valueOf'', ''__defineGetter__'',
      ''__defineSetter__'', ''__lookupGetter__'', ''__lookupSetter__'']"

definition Object_prototype_properties :: "string list" where
  "Object_prototype_properties = ''__proto__'' # Object_prototype_functions"

text \<open>\<open>field in schema\<close>, for a schema written as an object literal: true for an own key
  and for every inherited property.\<close>

definition js_in :: "string \<Rightarrow> (string \<times> 'a) list \<Rightarrow> bool" where
  "js_in field schema \<longleftrightarrow>
     field \<in> set (map fst schema) \<or> field \<in> set Object_prototype_properties"

text \<open>\<open>obj[f]\<close> on a plain object: the own property, else the inherited one, else
  \<open>undefined\<close>. (The code reads a property only after \<open>_.isPlainObject(obj)\<close>.)\<close>

definition Object_prototype_get :: "string \<Rightarrow> 'n jsval" where
  "Object_prototype_get f =
     (if f \<in> set Object_prototype_functions then JFunction f else JUndefined)"

fun getProp :: "'n jsval \<Rightarrow> string \<Rightarrow> 'n jsval" where
  "getProp (JObj ps) f =
     (case map_of ps f of
        Some v \<Rightarrow> v
      | None \<Rightarrow> if f = ''__proto__'' then JObjectPrototype else Object_prototype_get f)"
| "getProp JObjectPrototype f =
     (if f = ''__proto__'' then JNull else Object_prototype_get f)"
| "getProp v f = JUndefined"

section \<open>Failures\<close>

text \<open>Every \<open>throw\<close> of the source is one constructor, carrying the strings the source
  concatenates into the message; \<open>message\<close> is the text of the thrown \<open>Error\<close>.
  \<open>SyntaxError\<close> is what \<open>JSON.parse\<close> throws.\<close>

datatype error =
    Field_must_be_a_number string
  | Field_cannot_be_an_empty_string string
  | Field_must_be_a_string string
  | Field_must_be string string
  | Field_must_be_a_boolean string
  | Field_must_be_a_date string
  | Field_must_be_an_object string
  | Field_must_be_an_array string
  | Object_must_be_null string
  | Object_must_be_an_object string
  | Extraneous_field string
  | Impossible_for_schema_to_be_neither
  | SyntaxError

fun message :: "error \<Rightarrow> string" where
  "message (Field_must_be_a_number key) = ''Field '' @ key @ '' must be a number''"
| "message (Field_cannot_be_an_empty_string key) =
     ''Field '' @ key @ '' cannot be an empty string''"
| "message (Field_must_be_a_string key) = ''Field '' @ key @ '' must be a string''"
| "message (Field_must_be key lit) = ''Field '' @ key @ '' must be '' @ lit"
| "message (Field_must_be_a_boolean key) = ''Field '' @ key @ '' must be a boolean''"
| "message (Field_must_be_a_date key) = ''Field '' @ key @ '' must be a date''"
| "message (Field_must_be_an_object key) = ''Field '' @ key @ '' must be an object''"
| "message (Field_must_be_an_array key) = ''Field '' @ key @ '' must be an array''"
| "message (Object_must_be_null key) = ''Object '' @ key @ '' must be null''"
| "message (Object_must_be_an_object key) = ''Object '' @ key @ '' must be an object''"
| "message (Extraneous_field field) = ''Extraneous field '' @ field"
| "message Impossible_for_schema_to_be_neither = ''impossible for schema to be neither''"
| "message SyntaxError = ''SyntaxError''"


section \<open>Schemas\<close>

text \<open>
  A \<open>SchemaField\<close> is a validation function made by one of the combinators of namespace
  \<open>Schemas\<close>, or a plain object of fields (\<open>SchemaType\<close>). \<open>Schema_neither\<close> is any
  other value in a schema position, which the types rule out and
  \<open>validateSchemaField\<close> rejects. The options of \<open>Schemas.string\<close> are the truth value
  of \<open>nonEmpty\<close>; those of \<open>Schemas.boolean\<close> are \<open>val\<close>, with \<open>None\<close> where \<open>opts\<close>
  or \<open>opts.val\<close> is undefined.
\<close>

datatype schema =
    Schemas_number
  | Schemas_string bool
  | Schemas_literal string
  | Schemas_nulll
  | Schemas_boolean "bool option"
  | Schemas_date
  | Schemas_optional schema
  | Schemas_values schema
  | Schemas_or schema schema
  | Schemas_baseArray schema
  | Schemas_array schema
  | SchemaType "(string \<times> schema) list"
  | Schema_neither

text \<open>What the host provides: the time value of \<open>new Date(val)\<close> (\<open>None\<close> where it is
  \<open>NaN\<close>), and \<open>JSON.parse\<close> (\<open>None\<close> where it throws).\<close>

record 'n host =
  new_Date_valueOf :: "'n jsval \<Rightarrow> 'n option"
  JSON_parse :: "string \<Rightarrow> 'n jsval option"

definition keyConcat :: "string \<Rightarrow> string \<Rightarrow> string" where
  "keyConcat k f = (if k = [] then f else k @ ''.'' @ f)"

text \<open>\<open>_.map\<close> and \<open>_.mapValues\<close> call the function on one element after the other; the
  first call that throws ends the loop.\<close>

fun first_throw :: "('e + 'a) list \<Rightarrow> 'e + 'a list" where
  "first_throw [] = Inr []"
| "first_throw (r # rs) =
     (case r of
        Inl e \<Rightarrow> Inl e
      | Inr v \<Rightarrow> (case first_throw rs of Inl e \<Rightarrow> Inl e | Inr vs \<Rightarrow> Inr (v # vs)))"

definition boolean_text :: "bool \<Rightarrow> string" where
  "boolean_text b = (if b then ''true'' else ''false'')"

section \<open>The validation engine\<close>

text \<open>
  \<open>API.validateSchema\<close> and \<open>API.validateSchemaField\<close>. The engine passes
  \<open>API.validateSchemaField\<close> itself as the \<open>validator\<close> callback of every combinator, so
  each \<open>validator(s, k, v)\<close> of the source is the recursive call here. The schema argument
  of \<open>validateSchema\<close> is \<open>None\<close> for \<open>null\<close>.
\<close>

function validateSchema ::
    "'n host \<Rightarrow> (string \<times> schema) list option \<Rightarrow> 'n jsval \<Rightarrow> string \<Rightarrow> error + 'n jsval"
  and validateSchemaField ::
    "'n host \<Rightarrow> schema \<Rightarrow> string \<Rightarrow> 'n jsval \<Rightarrow> error + 'n jsval"
where
  "validateSchema h None obj key =
     (if obj \<noteq> JNull \<and> obj \<noteq> JUndefined then Inl (Object_must_be_null key) else Inr JNull)"
| "validateSchema h (Some schema) obj key =
     (if \<not> isPlainObject obj then Inl (Object_must_be_an_object key)
      else case find (\<lambda>field. \<not> js_in field schema) (map fst (ownEntries obj)) of
        Some field \<Rightarrow> Inl (Extraneous_field field)
      | None \<Rightarrow>
          map_sum id JObj (first_throw (map (\<lambda>(f, s).
            map_sum id (Pair f) (validateSchemaField h s (keyConcat key f) (getProp obj f)))
            schema)))"
| "validateSchemaField h Schemas_number key val =
     (if typeof val = ''number'' then Inr val else Inl (Field_must_be_a_number key))"
| "validateSchemaField h (Schemas_string nonEmpty) key val =
     (if typeof val = ''string'' then
        (if nonEmpty \<and> val = JStr [] then Inl (Field_cannot_be_an_empty_string key)
         else Inr val)
      else Inl (Field_must_be_a_string key))"
| "validateSchemaField h (Schemas_literal lit) key val =
     (if val \<noteq> JStr lit then Inl (Field_must_be key lit) else Inr (JStr lit))"
| "validateSchemaField h Schemas_nulll key val =
     (if val \<noteq> JNull then Inl (Field_must_be key ''null'') else Inr JNull)"
| "validateSchemaField h (Schemas_boolean opts) key val =
     (if typeof val = ''boolean'' then
        (case opts of
           Some b \<Rightarrow> if val \<noteq> JBool b then Inl (Field_must_be key (boolean_text b)) else Inr val
         | None \<Rightarrow> Inr val)
      else Inl (Field_must_be_a_boolean key))"
| "validateSchemaField h Schemas_date key val =
     (case new_Date_valueOf h val of
        None \<Rightarrow> Inl (Field_must_be_a_date key)
      | Some t \<Rightarrow> Inr (JDate t))"
| "validateSchemaField h (Schemas_optional schema) key val =
     (if val = JUndefined then Inr JUndefined else validateSchemaField h schema key val)"
| "validateSchemaField h (Schemas_values schema) key val =
     (if \<not> isPlainObject val then Inl (Field_must_be_an_object key)
      else map_sum id JObj (first_throw (map (\<lambda>(innerKey, innerVal).
        map_sum id (Pair innerKey)
          (validateSchemaField h schema (keyConcat key innerKey) innerVal))
        (ownEntries val))))"
| "validateSchemaField h (Schemas_or s1 s2) key val =
     (case validateSchemaField h s1 key val of
        Inr r \<Rightarrow> Inr r
      | Inl e \<Rightarrow> validateSchemaField h s2 key val)"
| "validateSchemaField h (Schemas_baseArray innerType) key val =
     (if \<not> isArray val then Inl (Field_must_be_an_array key)
      else case val of
        JArr xs \<Rightarrow> map_sum id JArr (first_throw (map (\<lambda>innerVal.
          validateSchemaField h innerType key innerVal) xs))
      | _ \<Rightarrow> Inl (Field_must_be_an_array key))"
| "validateSchemaField h (Schemas_array innerType) key val =
     (if \<not> isArray val then Inl (Field_must_be_an_array key)
      else case val of
        JArr xs \<Rightarrow> map_sum id JArr (first_throw (map (\<lambda>innerVal.
          validateSchemaField h innerType key innerVal) xs))
      | _ \<Rightarrow> Inl (Field_must_be_an_array key))"
| "validateSchemaField h (SchemaType schema) key val = validateSchema h (Some schema) val key"
| "validateSchemaField h Schema_neither key val = Inl Impossible_for_schema_to_be_neither"
  by pat_completeness auto

termination
proof (relation "measure (\<lambda>x. case x of
      Inl (h, so, obj, key) \<Rightarrow> 2 * size (SchemaType (the so))
    | Inr (h, s, key, val) \<Rightarrow> 2 * size s + 1)", goal_cases)
  case (2 h schema obj key x f s)
  then have "(f, s) \<in> set schema"
    by simp
  then have "size s < size_list (size_prod (\<lambda>_. 0) size) schema"
    by (induction schema) auto
  then show ?case
    by simp
qed simp_all

section \<open>The API binding\<close>

record API =
  path :: string
  requestSchema :: "(string \<times> schema) list option"
  responseSchema :: "(string \<times> schema) list option"

definition EmptyResponseValue :: "'n jsval" where
  "EmptyResponseValue = JObj [(''isEmptyResponse'', JBool True)]"

definition emptySchema :: "(string \<times> schema) list" where
  "emptySchema = [(''isEmptyResponse'', Schemas_boolean (Some True))]"

text \<open>\<open>JSON.stringify(EmptyResponseValue)\<close>: the text \<^verbatim>\<open>{"isEmptyResponse":true}\<close>.\<close>

definition JSON_stringify_EmptyResponseValue :: string where
  "JSON_stringify_EmptyResponseValue =
     ''{'' @ [CHR 0x22] @ ''isEmptyResponse'' @ [CHR 0x22] @ '':true}''"

text \<open>\<open>reviveRequest\<close> and \<open>reviveResponse\<close> return what \<open>console.error\<close> printed and
  the outcome; the \<open>try\<close> block covers \<open>JSON.parse\<close> as well as the validation, and the
  failure is thrown again as it is.\<close>

definition reviveRequest :: "'n host \<Rightarrow> API \<Rightarrow> string \<Rightarrow> string list \<times> (error + 'n jsval)" where
  "reviveRequest h api request0 =
     (let request = (if request0 = [] then JSON_stringify_EmptyResponseValue else request0) in
      case (case JSON_parse h request of
              None \<Rightarrow> Inl SyntaxError
            | Some obj \<Rightarrow> validateSchema h (requestSchema api) obj []) of
        Inr r \<Rightarrow> ([], Inr r)
      | Inl e \<Rightarrow> ([''Schema validation failed for request '' @ path api], Inl e))"

definition reviveResponse :: "'n host \<Rightarrow> API \<Rightarrow> string \<Rightarrow> string list \<times> (error + 'n jsval)" where
  "reviveResponse h api response0 =
     (let response = (if response0 = [] then JSON_stringify_EmptyResponseValue else response0) in
      case (case JSON_parse h response of
              None \<Rightarrow> Inl SyntaxError
            | Some obj \<Rightarrow> validateSchema h (responseSchema api) obj []) of
        Inr r \<Rightarrow> ([], Inr r)
      | Inl e \<Rightarrow> ([''Schema validation failed for response '' @ path api], Inl e))"

section \<open>Notions the properties are stated with\<close>







text \<open>The own property of an object given as its list of entries, \<open>undefined\<close> for a key that
  is not there.\<close>

definition own_value :: "(string \<times> 'n jsval) list \<Rightarrow> string \<Rightarrow> 'n jsval" where
  "own_value ps f = (case map_of ps f of Some v \<Rightarrow> v | None \<Rightarrow> JUndefined)"

text \<open>A JSON-compatible value: null, a boolean, a number, a string, an array or an object
  of such values.\<close>

fun json_value :: "'n jsval \<Rightarrow> bool" where
  "json_value JNull = True"
| "json_value (JBool b) = True"
| "json_value (JNum n) = True"
| "json_value (JStr s) = True"
| "json_value (JArr xs) = (\<forall>x \<in> set xs. json_value x)"
| "json_value (JObj ps) = (\<forall>(k, x) \<in> set ps. json_value x)"
| "json_value v = False"

text \<open>No key of the value, at any depth, is the name of a property that plain objects
  inherit.\<close>

fun no_inherited_keys :: "'n jsval \<Rightarrow> bool" where
  "no_inherited_keys (JArr xs) = (\<forall>x \<in> set xs. no_inherited_keys x)"
| "no_inherited_keys (JObj ps) =
     (\<forall>(k, x) \<in> set ps. k \<notin> set Object_prototype_properties \<and> no_inherited_keys x)"
| "no_inherited_keys v = True"

text \<open>A schema built from the combinators other than \<open>Schemas.date\<close> and from object
  schemas.\<close>

fun date_free :: "schema \<Rightarrow> bool" where
  "date_free Schemas_date = False"
| "date_free Schema_neither = False"
| "date_free (Schemas_optional s) = date_free s"
| "date_free (Schemas_values s) = date_free s"
| "date_free (Schemas_or s1 s2) = (date_free s1 \<and> date_free s2)"
| "date_free (Schemas_baseArray s) = date_free s"
| "date_free (Schemas_array s) = date_free s"
| "date_free (SchemaType fs) = (\<forall>(f, s) \<in> set fs. date_free s)"
| "date_free s = True"

text \<open>No object schema in the schema declares a field under the name of a property that
  plain objects inherit.\<close>

fun no_inherited_fields :: "schema \<Rightarrow> bool" where
  "no_inherited_fields (Schemas_optional s) = no_inherited_fields s"
| "no_inherited_fields (Schemas_values s) = no_inherited_fields s"
| "no_inherited_fields (Schemas_or s1 s2) = (no_inherited_fields s1 \<and> no_inherited_fields s2)"
| "no_inherited_fields (Schemas_baseArray s) = no_inherited_fields s"
| "no_inherited_fields (Schemas_array s) = no_inherited_fields s"
| "no_inherited_fields (SchemaType fs) =
     (\<forall>(f, s) \<in> set fs. f \<notin> set Object_prototype_properties \<and> no_inherited_fields s)"
| "no_inherited_fields s = True"

text \<open>
  Conformance of a value to a schema, following the specification's description of each
  combinator (sections 4.1 and 4.2), not the code: a number for \<open>number()\<close>, a string (not
  empty where \<open>nonEmpty\<close> is set) for \<open>string()\<close>, the literal itself, null for \<open>null_()\<close>,
  a boolean (the pinned one where \<open>val\<close> is set), an absent value or a conforming one for
  \<open>optional\<close>, a value conforming to either alternative for \<open>or\<close>, a mapping of conforming
  values for \<open>values\<close>, an array of conforming elements for \<open>array\<close>, and for an object
  schema a mapping all of whose keys are declared and each of whose declared fields
  conforms, a missing key counting as the absent value.
\<close>

fun conforms :: "schema \<Rightarrow> 'n jsval \<Rightarrow> bool" where
  "conforms Schemas_number v = (case v of JNum n \<Rightarrow> True | _ \<Rightarrow> False)"
| "conforms (Schemas_string nonEmpty) v =
     (case v of JStr s \<Rightarrow> \<not> (nonEmpty \<and> s = []) | _ \<Rightarrow> False)"
| "conforms (Schemas_literal lit) v = (v = JStr lit)"
| "conforms Schemas_nulll v = (v = JNull)"
| "conforms (Schemas_boolean opts) v =
     (case v of JBool b \<Rightarrow> (case opts of None \<Rightarrow> True | Some b' \<Rightarrow> b = b') | _ \<Rightarrow> False)"
| "conforms Schemas_date v = False"
| "conforms (Schemas_optional s) v = (v = JUndefined \<or> conforms s v)"
| "conforms (Schemas_values s) v =
     (case v of JObj ps \<Rightarrow> (\<forall>(k, x) \<in> set ps. conforms s x) | _ \<Rightarrow> False)"
| "conforms (Schemas_or s1 s2) v = (conforms s1 v \<or> conforms s2 v)"
| "conforms (Schemas_baseArray s) v =
     (case v of JArr xs \<Rightarrow> (\<forall>x \<in> set xs. conforms s x) | _ \<Rightarrow> False)"
| "conforms (Schemas_array s) v =
     (case v of JArr xs \<Rightarrow> (\<forall>x \<in> set xs. conforms s x) | _ \<Rightarrow> False)"
| "conforms (SchemaType fs) v =
     (case v of
        JObj ps \<Rightarrow> (\<forall>k \<in> set (map fst ps). k \<in> set (map fst fs)) \<and>
                   (\<forall>(f, s) \<in> set fs. conforms s (own_value ps f))
      | _ \<Rightarrow> False)"
| "conforms Schema_neither v = False"

text \<open>Two values have the same content: arrays element by element, objects property by
  property, where a key bound to \<open>undefined\<close> reads like a key that is not there and the
  order of keys is not compared (as \<open>JSON.stringify\<close> then \<open>JSON.parse\<close> would show them,
  up to key order).\<close>

function (sequential) same_value :: "'n jsval \<Rightarrow> 'n jsval \<Rightarrow> bool" where
  "same_value (JObj ps) (JObj qs) =
     (\<forall>k \<in> set (map fst ps) \<union> set (map fst qs). same_value (own_value ps k) (own_value qs k))"
| "same_value (JArr xs) (JArr ys) = list_all2 same_value xs ys"
| "same_value a b = (a = b)"
  by pat_completeness auto
termination
proof (relation "measure (\<lambda>(a, b). size a + size b)", goal_cases)
  case (2 ps qs k)
  have le: "size (own_value rs k) \<le> size (JObj rs)"
    and less: "k \<in> fst ` set rs \<Longrightarrow> size (own_value rs k) < size (JObj rs)"
    for rs :: "(string \<times> 'n jsval) list"
  proof -
    have "size v < size_list (size_prod (\<lambda>_. 0) size) rs" if "(k, v) \<in> set rs" for v
      using that by (induction rs) auto
    then have found: "size (own_value rs k) < size (JObj rs)" if "map_of rs k = Some v" for v
      using that map_of_SomeD [of rs k v] by (fastforce simp: own_value_def)
    show "size (own_value rs k) \<le> size (JObj rs)"
      using found by (cases "map_of rs k") (auto simp: own_value_def less_imp_le)
    show "size (own_value rs k) < size (JObj rs)" if "k \<in> fst ` set rs"
      using that found by (cases "map_of rs k") (auto simp: map_of_eq_None_iff)
  qed
  from 2 consider "k \<in> fst ` set ps" | "k \<in> fst ` set qs"
    by auto
  then have "size (own_value ps k) + size (own_value qs k) < size (JObj ps) + size (JObj qs)"
  proof cases
    case 1
    from less [OF this] le [of qs] show ?thesis by linarith
  next
    case 2
    from less [OF this] le [of ps] show ?thesis by linarith
  qed
  then show ?case
    by simp
next
  case (3 xs ys x y)
  have "size z < size_list size zs" if "z \<in> set zs" for z :: "'n jsval" and zs
    using that by (induction zs) auto
  from this [of x xs] this [of y ys] 3 show ?case by simp
qed simp

section \<open>Concrete schemas and a host for the examples\<close>

text \<open>The schema \<^verbatim>\<open>{ name: string({nonEmpty:true}), age: optional(number()) }\<close> of the
  specification's scenario.\<close>

definition person_schema :: "(string \<times> schema) list" where
  "person_schema =
     [(''name'', Schemas_string True), (''age'', Schemas_optional Schemas_number)]"

text \<open>A host with integers for numbers, where \<open>new Date\<close> of a number is a valid date and
  \<open>JSON.parse\<close> reads the text of the empty-response value.\<close>

definition example_host :: "int host" where
  "example_host =
     \<lparr> new_Date_valueOf = (\<lambda>v. case v of JNum n \<Rightarrow> Some n | _ \<Rightarrow> None),
       JSON_parse = (\<lambda>s. if s = JSON_stringify_EmptyResponseValue
                           then Some EmptyResponseValue else None) \<rparr>"

section \<open>Facts about the loops\<close>

lemma first_throw_Inr_iff:
  "first_throw (map g xs) = Inr ys \<longleftrightarrow> list_all2 (\<lambda>x y. g x = Inr y) xs ys"
proof (induction xs arbitrary: ys)
  case Nil
  then show ?case by auto
next
  case (Cons x xs)
  show ?case
  proof (cases "g x")
    case (Inl e)
    then show ?thesis by (auto simp: list_all2_Cons1)
  next
    case (Inr v)
    then show ?thesis
      using Cons.IH by (cases "first_throw (map g xs)") (auto simp: list_all2_Cons1)
  qed
qed

lemma first_throw_map_Inr: "first_throw (map Inr vs) = Inr vs"
  by (induction vs) auto

lemma first_throw_append_Inl:
  "first_throw (map Inr vs @ Inl e # rest) = Inl e"
  by (induction vs) auto




lemma not_isArray: "\<not> isArray v \<longleftrightarrow> (\<forall>xs. v \<noteq> JArr xs)"
  by (cases v) auto

lemma all_ok_map_Inr:
  "(\<forall>a \<in> set xs. \<exists>r. g a = Inr r) \<Longrightarrow> \<exists>oks. map g xs = map Inr oks"
proof (induction xs)
  case Nil
  then show ?case by simp
next
  case (Cons a xs)
  then obtain r oks where "g a = Inr r" "map g xs = map Inr oks"
    by auto
  then have "map g (a # xs) = map Inr (r # oks)"
    by simp
  then show ?case by blast
qed




section \<open>A null schema (C8)\<close>

text \<open>
  C8. When the schema argument of \<open>validateSchema\<close> is null, validation succeeds, returning
  null, if and only if the input is null or undefined; for every other input it fails with
  the failure whose message is "Object <key> must be null", at the current path.
\<close>

theorem validateSchema_null_schema:
  "(obj = JNull \<or> obj = JUndefined \<longrightarrow> validateSchema h None obj key = Inr JNull) \<and>
   (obj \<noteq> JNull \<and> obj \<noteq> JUndefined \<longrightarrow>
      validateSchema h None obj key = Inl (Object_must_be_null key)) \<and>
   ((\<exists>r. validateSchema h None obj key = Inr r) \<longleftrightarrow> obj = JNull \<or> obj = JUndefined) \<and>
   message (Object_must_be_null key) = ''Object '' @ key @ '' must be null''"
  by auto

theorem validateSchema_null_schema_witness:
  "validateSchema example_host None JNull ''a'' = Inr JNull \<and>
   validateSchema example_host None JUndefined ''a'' = Inr JNull \<and>
   validateSchema example_host None (JStr ''x'') ''a'' = Inl (Object_must_be_null ''a'')"
  using validateSchema_null_schema [where h = example_host and obj = JNull and key = "''a''"]
    validateSchema_null_schema [where h = example_host and obj = JUndefined and key = "''a''"]
    validateSchema_null_schema [where h = example_host and obj = "JStr ''x''" and key = "''a''"]
  by simp

section \<open>The combinator \<open>optional\<close> (C6)\<close>

text \<open>
  C6. For every inner schema \<open>T\<close>, \<open>optional(T)\<close> on an undefined value succeeds with
  undefined, whatever \<open>T\<close> is; on every other value, null included, it is \<open>T\<close> on that
  value at the same key, success or failure. So \<open>optional(number())\<close> rejects null and
  accepts absence.
\<close>

theorem optional_absent_or_delegates:
  "validateSchemaField h (Schemas_optional T) key JUndefined = Inr JUndefined \<and>
   (v \<noteq> JUndefined \<longrightarrow>
      validateSchemaField h (Schemas_optional T) key v = validateSchemaField h T key v) \<and>
   validateSchemaField h (Schemas_optional Schemas_number) key JNull =
      Inl (Field_must_be_a_number key) \<and>
   validateSchemaField h (Schemas_optional Schemas_number) key JUndefined = Inr JUndefined"
  by simp

theorem optional_absent_or_delegates_witness:
  "validateSchemaField example_host (Schemas_optional (Schemas_string True)) ''s'' (JStr ''x'') =
     Inr (JStr ''x'') \<and>
   validateSchemaField example_host (Schemas_optional (Schemas_string True)) ''s'' (JStr []) =
     Inl (Field_cannot_be_an_empty_string ''s'') \<and>
   validateSchemaField example_host (Schemas_optional Schemas_number) ''s'' JNull =
     Inl (Field_must_be_a_number ''s'')"
  using optional_absent_or_delegates [where h = example_host and T = "Schemas_string True"
      and key = "''s''" and v = "JStr ''x''"]
    optional_absent_or_delegates [where h = example_host and T = "Schemas_string True"
      and key = "''s''" and v = "JStr []"]
  by simp

section \<open>The combinator \<open>or\<close> (C4)\<close>

text \<open>
  C4. For all schemas \<open>A\<close> and \<open>B\<close> and every value, \<open>or(A, B)\<close> returns the result of \<open>A\<close>
  where \<open>A\<close> succeeds; where \<open>A\<close> fails it returns the result of \<open>B\<close> where \<open>B\<close> succeeds;
  it fails exactly when both fail, and then with the failure of \<open>B\<close>. In particular
  \<open>or(string(), number())\<close> accepts a number.
\<close>

theorem or_first_then_second:
  "(\<forall>a. validateSchemaField h A key v = Inr a \<longrightarrow>
      validateSchemaField h (Schemas_or A B) key v = Inr a) \<and>
   (\<forall>e b. validateSchemaField h A key v = Inl e \<and> validateSchemaField h B key v = Inr b \<longrightarrow>
      validateSchemaField h (Schemas_or A B) key v = Inr b) \<and>
   (\<forall>e e'. validateSchemaField h A key v = Inl e \<and> validateSchemaField h B key v = Inl e' \<longrightarrow>
      validateSchemaField h (Schemas_or A B) key v = Inl e') \<and>
   ((\<exists>e. validateSchemaField h (Schemas_or A B) key v = Inl e) \<longleftrightarrow>
      (\<exists>e. validateSchemaField h A key v = Inl e) \<and>
      (\<exists>e'. validateSchemaField h B key v = Inl e')) \<and>
   validateSchemaField h (Schemas_or (Schemas_string nonEmpty) Schemas_number) key (JNum n) =
      Inr (JNum n)"
  by (cases "validateSchemaField h A key v"; cases "validateSchemaField h B key v") auto

theorem or_first_then_second_witness:
  "validateSchemaField example_host (Schemas_or Schemas_number (Schemas_string False)) ''k''
     (JNum 7) = Inr (JNum 7) \<and>
   validateSchemaField example_host (Schemas_or (Schemas_string False) Schemas_number) ''k''
     (JNum 7) = Inr (JNum 7) \<and>
   validateSchemaField example_host (Schemas_or (Schemas_string False) Schemas_number) ''k''
     JNull = Inl (Field_must_be_a_number ''k'')"
  using or_first_then_second [where h = example_host and A = Schemas_number
      and B = "Schemas_string False" and key = "''k''" and v = "JNum 7"]
    or_first_then_second [where h = example_host and A = "Schemas_string False"
      and B = Schemas_number and key = "''k''" and v = "JNum 7"]
    or_first_then_second [where h = example_host and A = "Schemas_string False"
      and B = Schemas_number and key = "''k''" and v = JNull]
  by simp

section \<open>The combinators \<open>array\<close> and \<open>baseArray\<close> (C7, C10)\<close>

text \<open>
  C7. For every inner schema \<open>T\<close>, \<open>array(T)\<close> and \<open>baseArray(T)\<close> fail on a value that is
  not an array with "Field <key> must be an array"; on an array \<open>[a, b, c]\<close> whose elements
  \<open>T\<close> accepts they return the array of the three results in input order, and so for an
  array of any length; and where \<open>T\<close> fails on an element after accepting all earlier ones,
  they fail with that failure, whatever the later elements are.
\<close>

theorem array_validates_elements_in_order:
  "(\<not> isArray v \<longrightarrow>
      validateSchemaField h (Schemas_array T) key v = Inl (Field_must_be_an_array key) \<and>
      validateSchemaField h (Schemas_baseArray T) key v = Inl (Field_must_be_an_array key)) \<and>
   (validateSchemaField h T key a = Inr a' \<and> validateSchemaField h T key b = Inr b' \<and>
    validateSchemaField h T key c = Inr c' \<longrightarrow>
      validateSchemaField h (Schemas_array T) key (JArr [a, b, c]) = Inr (JArr [a', b', c']) \<and>
      validateSchemaField h (Schemas_baseArray T) key (JArr [a, b, c]) =
        Inr (JArr [a', b', c'])) \<and>
   (map (validateSchemaField h T key) xs = map Inr ys \<longrightarrow>
      validateSchemaField h (Schemas_array T) key (JArr xs) = Inr (JArr ys) \<and>
      validateSchemaField h (Schemas_baseArray T) key (JArr xs) = Inr (JArr ys)) \<and>
   (map (validateSchemaField h T key) pre = map Inr oks \<and>
    validateSchemaField h T key x = Inl e \<longrightarrow>
      validateSchemaField h (Schemas_array T) key (JArr (pre @ x # post)) = Inl e \<and>
      validateSchemaField h (Schemas_baseArray T) key (JArr (pre @ x # post)) = Inl e)"
proof (intro conjI impI)
  assume "\<not> isArray v"
  then show "validateSchemaField h (Schemas_array T) key v = Inl (Field_must_be_an_array key)"
    and "validateSchemaField h (Schemas_baseArray T) key v = Inl (Field_must_be_an_array key)"
    by simp_all
next
  assume "validateSchemaField h T key a = Inr a' \<and> validateSchemaField h T key b = Inr b' \<and>
    validateSchemaField h T key c = Inr c'"
  then show "validateSchemaField h (Schemas_array T) key (JArr [a, b, c]) = Inr (JArr [a', b', c'])"
    and "validateSchemaField h (Schemas_baseArray T) key (JArr [a, b, c]) = Inr (JArr [a', b', c'])"
    by simp_all
next
  assume "map (validateSchemaField h T key) xs = map Inr ys"
  then show "validateSchemaField h (Schemas_array T) key (JArr xs) = Inr (JArr ys)"
    and "validateSchemaField h (Schemas_baseArray T) key (JArr xs) = Inr (JArr ys)"
    by (simp_all add: first_throw_map_Inr)
next
  assume "map (validateSchemaField h T key) pre = map Inr oks \<and>
    validateSchemaField h T key x = Inl e"
  then show "validateSchemaField h (Schemas_array T) key (JArr (pre @ x # post)) = Inl e"
    and "validateSchemaField h (Schemas_baseArray T) key (JArr (pre @ x # post)) = Inl e"
    by (simp_all add: first_throw_append_Inl)
qed

theorem array_validates_elements_in_order_witness:
  "validateSchemaField example_host (Schemas_array Schemas_number) ''xs'' (JStr ''no'') =
     Inl (Field_must_be_an_array ''xs'') \<and>
   validateSchemaField example_host (Schemas_array Schemas_number) ''xs''
     (JArr [JNum 1, JNum 2, JNum 3]) = Inr (JArr [JNum 1, JNum 2, JNum 3]) \<and>
   validateSchemaField example_host (Schemas_baseArray Schemas_number) ''xs''
     (JArr [JNum 1, JStr ''bad'', JNull]) = Inl (Field_must_be_a_number ''xs'')"
  using array_validates_elements_in_order [where h = example_host and T = Schemas_number
      and key = "''xs''" and v = "JStr ''no''" and a = "JNum 1" and a' = "JNum 1"
      and b = "JNum 2" and b' = "JNum 2" and c = "JNum 3" and c' = "JNum 3"
      and xs = "[JNum 1]" and ys = "[JNum 1]" and pre = "[JNum 1]" and oks = "[JNum 1]"
      and x = "JStr ''bad''" and e = "Field_must_be_a_number ''xs''" and post = "[JNull]"]
  by simp




section \<open>Facts about object schemas\<close>

lemma validateSchema_Inr_iff:
  "validateSchema h (Some fs) obj key = Inr out \<longleftrightarrow>
     isPlainObject obj \<and> (\<forall>k \<in> set (map fst (ownEntries obj)). js_in k fs) \<and>
     (\<exists>qs. out = JObj qs \<and>
        list_all2 (\<lambda>x y. fst y = fst x \<and>
          validateSchemaField h (snd x) (keyConcat key (fst x)) (getProp obj (fst x)) =
            Inr (snd y)) fs qs)"
proof -
  let ?g = "\<lambda>(f, s). map_sum id (Pair f)
      (validateSchemaField h s (keyConcat key f) (getProp obj f))"
  have g: "?g x = Inr y \<longleftrightarrow> fst y = fst x \<and>
      validateSchemaField h (snd x) (keyConcat key (fst x)) (getProp obj (fst x)) =
        Inr (snd y)" for x y
    by (cases x; cases y; cases "validateSchemaField h (snd x) (keyConcat key (fst x))
        (getProp obj (fst x))") auto
  have loop: "map_sum id JObj (first_throw (map ?g fs)) = Inr out \<longleftrightarrow>
      (\<exists>qs. out = JObj qs \<and> list_all2 (\<lambda>x y. ?g x = Inr y) fs qs)"
    unfolding first_throw_Inr_iff [symmetric]
    by (cases "first_throw (map ?g fs)") auto
  show ?thesis
  proof (cases "isPlainObject obj")
    case False
    then show ?thesis by simp
  next
    case True
    show ?thesis
    proof (cases "find (\<lambda>field. \<not> js_in field fs) (map fst (ownEntries obj))")
      case None
      then have "\<forall>k \<in> set (map fst (ownEntries obj)). js_in k fs"
        by (auto simp: find_None_iff)
      with True None loop show ?thesis
        unfolding g by simp
    next
      case (Some k)
      then have "\<not> (\<forall>k \<in> set (map fst (ownEntries obj)). js_in k fs)"
        by (auto simp: find_Some_iff)
      with True Some show ?thesis by simp
    qed
  qed
qed

lemma fields_results_keys:
  "list_all2 (\<lambda>x y. fst y = fst x \<and> R x y) fs qs \<Longrightarrow> map fst qs = map fst fs"
  by (induction fs qs rule: list_all2_induct) auto

lemma fields_results_mem:
  "list_all2 (\<lambda>x y. fst y = fst x \<and> R x y) fs qs \<Longrightarrow> x \<in> set fs \<Longrightarrow>
     \<exists>y \<in> set qs. fst y = fst x \<and> R x y"
  by (induction fs qs rule: list_all2_induct) auto

lemma getProp_absent:
  "f \<notin> set (map fst ps) \<Longrightarrow> f \<notin> set Object_prototype_properties \<Longrightarrow>
     getProp (JObj ps) f = JUndefined"
  by (auto simp: map_of_eq_None_iff [THEN iffD2] Object_prototype_properties_def
      Object_prototype_get_def split: option.splits)

lemma person_Ann:
  "validateSchema h (Some person_schema) (JObj [(''name'', JStr ''Ann'')]) [] =
     Inr (JObj [(''name'', JStr ''Ann''), (''age'', JUndefined)])"
  by (simp add: person_schema_def js_in_def keyConcat_def Object_prototype_get_def
      Object_prototype_functions_def)

lemma undeclared_field_rejected:
  assumes "isPlainObject obj" and "k \<in> set (map fst (ownEntries obj))" and "\<not> js_in k fs"
  shows "\<exists>f. validateSchema h (Some fs) obj key = Inl (Extraneous_field f) \<and>
    \<not> js_in f fs \<and> f \<in> set (map fst (ownEntries obj))"
proof (cases "find (\<lambda>field. \<not> js_in field fs) (map fst (ownEntries obj))")
  case None
  with assms show ?thesis
    by (auto simp: find_None_iff)
next
  case (Some f)
  then have "\<not> js_in f fs \<and> f \<in> set (map fst (ownEntries obj))"
    by (auto simp: find_Some_iff)
  with Some assms(1) show ?thesis
    by simp
qed









lemma revive_parsed:
  assumes "JSON_parse h JSON_stringify_EmptyResponseValue = Some EmptyResponseValue"
  shows "snd (reviveRequest h api []) =
      validateSchema h (requestSchema api) EmptyResponseValue []"
    and "snd (reviveResponse h api []) =
      validateSchema h (responseSchema api) EmptyResponseValue []"
  using assms
  by (auto simp: reviveRequest_def reviveResponse_def Let_def split: sum.splits)

lemma emptySchema_accepts_EmptyResponseValue:
  "validateSchema h (Some emptySchema) EmptyResponseValue [] = Inr EmptyResponseValue"
  by (simp add: emptySchema_def EmptyResponseValue_def js_in_def keyConcat_def)

lemma undeclared_isEmptyResponse:
  assumes "''isEmptyResponse'' \<notin> set (map fst fs)"
  shows "validateSchema h (Some fs) EmptyResponseValue key =
    Inl (Extraneous_field ''isEmptyResponse'')"
proof -
  have "\<not> js_in ''isEmptyResponse'' fs"
    using assms
    by (simp add: js_in_def Object_prototype_properties_def Object_prototype_functions_def)
  then show ?thesis
    by (simp add: EmptyResponseValue_def)
qed

section \<open>Absent optional fields (C1)\<close>

text \<open>
  C1, as the code has it. For the schema
  \<^verbatim>\<open>{ name: string({nonEmpty:true}), age: optional(number()) }\<close> the input
  \<^verbatim>\<open>{"name":"Ann"}\<close> is accepted and the output is \<^verbatim>\<open>{name: "Ann", age: undefined}\<close>:
  \<open>_.mapValues\<close> gives the output one key for every key of the schema, and a
  field whose schema is \<open>optional(...)\<close> and whose key the input lacks (the key not being
  the name of an inherited property) stays in the output as a key bound to \<open>undefined\<close>.
\<close>

theorem absent_optional_bound_to_undefined:
  "validateSchema h (Some person_schema) (JObj [(''name'', JStr ''Ann'')]) [] =
     Inr (JObj [(''name'', JStr ''Ann''), (''age'', JUndefined)]) \<and>
   (validateSchema h (Some fs) (JObj ps) key = Inr out \<and>
    (f, Schemas_optional T) \<in> set fs \<and> f \<notin> set (map fst ps) \<and>
    f \<notin> set Object_prototype_properties \<longrightarrow>
      (\<exists>qs. out = JObj qs \<and> map fst qs = map fst fs \<and> (f, JUndefined) \<in> set qs))"
proof (intro conjI impI)
  show "validateSchema h (Some person_schema) (JObj [(''name'', JStr ''Ann'')]) [] =
     Inr (JObj [(''name'', JStr ''Ann''), (''age'', JUndefined)])"
    by (rule person_Ann)
next
  assume a: "validateSchema h (Some fs) (JObj ps) key = Inr out \<and>
    (f, Schemas_optional T) \<in> set fs \<and> f \<notin> set (map fst ps) \<and>
    f \<notin> set Object_prototype_properties"
  then have "validateSchema h (Some fs) (JObj ps) key = Inr out"
    by (rule conjunct1)
  then obtain qs where out: "out = JObj qs"
    and rel: "list_all2 (\<lambda>x y. fst y = fst x \<and>
          validateSchemaField h (snd x) (keyConcat key (fst x)) (getProp (JObj ps) (fst x)) =
            Inr (snd y)) fs qs"
    unfolding validateSchema_Inr_iff by blast
  from a have "f \<notin> set (map fst ps)" and "f \<notin> set Object_prototype_properties"
    by blast+
  then have undef: "getProp (JObj ps) f = JUndefined"
    by (rule getProp_absent)
  from a have "(f, Schemas_optional T) \<in> set fs"
    by simp
  from fields_results_mem [OF rel this] obtain y where "y \<in> set qs" "fst y = f"
    "validateSchemaField h (Schemas_optional T) (keyConcat key f) (getProp (JObj ps) f) =
       Inr (snd y)"
    by auto
  with undef have "(f, JUndefined) \<in> set qs"
    by (cases y) auto
  with out fields_results_keys [OF rel] show
    "\<exists>qs. out = JObj qs \<and> map fst qs = map fst fs \<and> (f, JUndefined) \<in> set qs"
    by blast
qed

theorem absent_optional_bound_to_undefined_witness:
  "validateSchema example_host (Some person_schema) (JObj [(''name'', JStr ''Ann'')]) [] =
     Inr (JObj [(''name'', JStr ''Ann''), (''age'', JUndefined)]) \<and>
   (''age'', Schemas_optional Schemas_number) \<in> set person_schema \<and>
   ''age'' \<notin> set (map fst [(''name'', JStr ''Ann'' :: int jsval)]) \<and>
   ''age'' \<notin> set Object_prototype_properties \<and>
   (\<exists>qs. JObj [(''name'', JStr ''Ann''), (''age'', JUndefined :: int jsval)] = JObj qs \<and>
      map fst qs = map fst person_schema \<and> (''age'', JUndefined) \<in> set qs)"
proof -
  have 1: "validateSchema example_host (Some person_schema) (JObj [(''name'', JStr ''Ann'')]) [] =
     Inr (JObj [(''name'', JStr ''Ann''), (''age'', JUndefined)])"
    by (rule person_Ann)
  have 2: "(''age'', Schemas_optional Schemas_number) \<in> set person_schema"
    by (simp add: person_schema_def)
  have 3: "''age'' \<notin> set (map fst [(''name'', JStr ''Ann'' :: int jsval)])"
    by simp
  have 4: "''age'' \<notin> set Object_prototype_properties"
    by (simp add: Object_prototype_properties_def Object_prototype_functions_def)
  from absent_optional_bound_to_undefined [where h = example_host and fs = person_schema
      and ps = "[(''name'', JStr ''Ann'')]" and key = "[]" and f = "''age''"
      and T = Schemas_number and out = "JObj [(''name'', JStr ''Ann''), (''age'', JUndefined)]"]
    1 2 3 4
  have "\<exists>qs. JObj [(''name'', JStr ''Ann''), (''age'', JUndefined :: int jsval)] = JObj qs \<and>
      map fst qs = map fst person_schema \<and> (''age'', JUndefined) \<in> set qs"
    by blast
  with 1 2 3 4 show ?thesis
    by blast
qed

text \<open>The output of the scenario is not \<^verbatim>\<open>{name: "Ann"}\<close>: it has the key \<open>age\<close>.\<close>

theorem absent_optional_key_present:
  "validateSchema example_host (Some person_schema) (JObj [(''name'', JStr ''Ann'')]) [] \<noteq>
     Inr (JObj [(''name'', JStr ''Ann'')]) \<and>
   validateSchema example_host (Some person_schema) (JObj [(''name'', JStr ''Ann'')]) [] =
     Inr (JObj [(''name'', JStr ''Ann''), (''age'', JUndefined)])"
  by (simp only: person_Ann) simp

section \<open>Extraneous fields (C3, C2)\<close>

text \<open>
  C3 at an input where the code departs from it: the input key \<open>toString\<close> is not declared
  by the schema, yet \<open>"toString" in schema\<close> holds through the prototype chain, so the
  input is accepted and the key dropped; likewise \<open>constructor\<close> against the empty object
  schema. (For a key that is neither declared nor inherited the check does abort first:
  \<open>undeclared_field_rejected\<close>.)
\<close>

theorem inherited_name_not_extraneous:
  "validateSchema h (Some person_schema)
     (JObj [(''name'', JStr ''Ann''), (''toString'', JNum n)]) [] =
     Inr (JObj [(''name'', JStr ''Ann''), (''age'', JUndefined)]) \<and>
   validateSchema h (Some person_schema)
     (JObj [(''name'', JStr []), (''toString'', JNum n)]) [] =
     Inl (Field_cannot_be_an_empty_string ''name'') \<and>
   validateSchema h (Some []) (JObj [(''constructor'', JNull)]) [] = Inr (JObj [])"
  by (simp add: person_schema_def js_in_def keyConcat_def Object_prototype_get_def
      Object_prototype_functions_def Object_prototype_properties_def)




section \<open>Reviving the empty text (C5)\<close>

text \<open>
  C5, as the code has it. Where \<open>JSON.parse\<close> reads the text of the empty-response value
  back, \<open>reviveRequest\<close> and \<open>reviveResponse\<close> on the empty string validate the
  empty-response value against the schema of the API: that succeeds with the
  empty-response value for \<open>emptySchema\<close>, and fails for a null schema and for every
  object schema that does not declare \<open>isEmptyResponse\<close>. Another schema that accepts the
  value, such as \<^verbatim>\<open>{ isEmptyResponse: boolean() }\<close>, succeeds too.
\<close>

theorem revive_empty_text:
  assumes "JSON_parse h JSON_stringify_EmptyResponseValue = Some EmptyResponseValue"
  shows "reviveRequest h api [] = reviveRequest h api JSON_stringify_EmptyResponseValue \<and>
     reviveResponse h api [] = reviveResponse h api JSON_stringify_EmptyResponseValue \<and>
     snd (reviveRequest h api []) =
       validateSchema h (requestSchema api) EmptyResponseValue [] \<and>
     snd (reviveResponse h api []) =
       validateSchema h (responseSchema api) EmptyResponseValue [] \<and>
     (requestSchema api = Some emptySchema \<longrightarrow>
        reviveRequest h api [] = ([], Inr EmptyResponseValue)) \<and>
     (responseSchema api = Some emptySchema \<longrightarrow>
        reviveResponse h api [] = ([], Inr EmptyResponseValue)) \<and>
     (requestSchema api = None \<longrightarrow>
        snd (reviveRequest h api []) = Inl (Object_must_be_null [])) \<and>
     (responseSchema api = None \<longrightarrow>
        snd (reviveResponse h api []) = Inl (Object_must_be_null [])) \<and>
     (\<forall>fs. requestSchema api = Some fs \<and> ''isEmptyResponse'' \<notin> set (map fst fs) \<longrightarrow>
        snd (reviveRequest h api []) = Inl (Extraneous_field ''isEmptyResponse'')) \<and>
     (\<forall>fs. responseSchema api = Some fs \<and> ''isEmptyResponse'' \<notin> set (map fst fs) \<longrightarrow>
        snd (reviveResponse h api []) = Inl (Extraneous_field ''isEmptyResponse''))"
proof -
  note parsed = revive_parsed [OF assms, of api]
  have req: "reviveRequest h api [] = ([], Inr EmptyResponseValue)"
    if "requestSchema api = Some emptySchema"
    using that assms emptySchema_accepts_EmptyResponseValue [of h]
    by (simp add: reviveRequest_def)
  have resp: "reviveResponse h api [] = ([], Inr EmptyResponseValue)"
    if "responseSchema api = Some emptySchema"
    using that assms emptySchema_accepts_EmptyResponseValue [of h]
    by (simp add: reviveResponse_def)
  have null: "validateSchema h None EmptyResponseValue [] = Inl (Object_must_be_null [])"
    by (simp add: EmptyResponseValue_def)
  have subst: "reviveRequest h api [] = reviveRequest h api JSON_stringify_EmptyResponseValue"
    "reviveResponse h api [] = reviveResponse h api JSON_stringify_EmptyResponseValue"
    by (simp_all add: reviveRequest_def reviveResponse_def JSON_stringify_EmptyResponseValue_def)
  have rest: "snd (reviveRequest h api []) =
       validateSchema h (requestSchema api) EmptyResponseValue [] \<and>
     snd (reviveResponse h api []) =
       validateSchema h (responseSchema api) EmptyResponseValue [] \<and>
     (requestSchema api = Some emptySchema \<longrightarrow>
        reviveRequest h api [] = ([], Inr EmptyResponseValue)) \<and>
     (responseSchema api = Some emptySchema \<longrightarrow>
        reviveResponse h api [] = ([], Inr EmptyResponseValue)) \<and>
     (requestSchema api = None \<longrightarrow>
        snd (reviveRequest h api []) = Inl (Object_must_be_null [])) \<and>
     (responseSchema api = None \<longrightarrow>
        snd (reviveResponse h api []) = Inl (Object_must_be_null [])) \<and>
     (\<forall>fs. requestSchema api = Some fs \<and> ''isEmptyResponse'' \<notin> set (map fst fs) \<longrightarrow>
        snd (reviveRequest h api []) = Inl (Extraneous_field ''isEmptyResponse'')) \<and>
     (\<forall>fs. responseSchema api = Some fs \<and> ''isEmptyResponse'' \<notin> set (map fst fs) \<longrightarrow>
        snd (reviveResponse h api []) = Inl (Extraneous_field ''isEmptyResponse''))"
    using parsed req resp null undeclared_isEmptyResponse [of _ h "[]"]
    by (simp del: validateSchema.simps)
  show ?thesis
    by (rule conjI [OF subst(1) conjI [OF subst(2) rest]])
qed

theorem revive_empty_text_witness:
  "JSON_parse example_host JSON_stringify_EmptyResponseValue = Some EmptyResponseValue \<and>
   reviveRequest example_host
     \<lparr>path = ''/ping'', requestSchema = Some emptySchema, responseSchema = None\<rparr> [] =
     ([], Inr EmptyResponseValue) \<and>
   snd (reviveResponse example_host
     \<lparr>path = ''/ping'', requestSchema = Some emptySchema, responseSchema = None\<rparr> []) =
     Inl (Object_must_be_null [])"
proof -
  let ?api = "\<lparr>path = ''/ping'', requestSchema = Some emptySchema, responseSchema = None\<rparr>"
  have p: "JSON_parse example_host JSON_stringify_EmptyResponseValue = Some EmptyResponseValue"
    by (simp add: example_host_def)
  have req: "requestSchema ?api = Some emptySchema" and resp: "responseSchema ?api = None"
    by simp_all
  from revive_empty_text [OF p, of ?api] req resp
  have "reviveRequest example_host ?api [] = ([], Inr EmptyResponseValue)"
    and "snd (reviveResponse example_host ?api []) = Inl (Object_must_be_null [])"
    by blast+
  with p show ?thesis
    by (intro conjI)
qed

text \<open>A schema other than \<open>emptySchema\<close> for which reviving the empty string succeeds.\<close>

theorem revive_empty_text_other_schema_accepts:
  "reviveRequest example_host
     \<lparr>path = ''/ping'', requestSchema = Some [(''isEmptyResponse'', Schemas_boolean None)],
      responseSchema = Some emptySchema\<rparr> [] = ([], Inr EmptyResponseValue) \<and>
   [(''isEmptyResponse'', Schemas_boolean None)] \<noteq> emptySchema"
  by (simp add: reviveRequest_def example_host_def EmptyResponseValue_def emptySchema_def
      js_in_def keyConcat_def)

section \<open>Conforming values (C9)\<close>

lemma same_value_refl: "same_value v v"
proof (induction v)
  case (JObj ps)
  have "same_value (own_value ps k) (own_value ps k)" for k
  proof (cases "map_of ps k")
    case None
    then show ?thesis by (simp add: own_value_def)
  next
    case (Some x)
    then have "(k, x) \<in> set ps" by (rule map_of_SomeD)
    with JObj [of "(k, x)" x] Some show ?thesis
      by (simp add: own_value_def)
  qed
  then show ?case by simp
next
  case (JArr xs)
  then show ?case
    by (simp add: list_all2_same)
qed simp_all

lemma entries_results_lookup:
  assumes "list_all2 (\<lambda>x y. fst y = fst x \<and> R x y) ps qs"
  shows "(map_of ps k = None \<and> map_of qs k = None) \<or>
    (\<exists>v w. map_of ps k = Some v \<and> map_of qs k = Some w \<and> R (k, v) (k, w))"
  using assms
proof (induction ps qs rule: list_all2_induct)
  case Nil
  then show ?case by simp
next
  case (Cons x xs y ys)
  then show ?case
    by (cases x; cases y) auto
qed

lemma values_Inr_iff:
  "validateSchemaField h (Schemas_values T) key val = Inr out \<longleftrightarrow>
     isPlainObject val \<and>
     (\<exists>qs. out = JObj qs \<and>
        list_all2 (\<lambda>x y. fst y = fst x \<and>
          validateSchemaField h T (keyConcat key (fst x)) (snd x) = Inr (snd y))
          (ownEntries val) qs)"
proof -
  let ?g = "\<lambda>(innerKey, innerVal). map_sum id (Pair innerKey)
      (validateSchemaField h T (keyConcat key innerKey) innerVal)"
  have g: "?g x = Inr y \<longleftrightarrow> fst y = fst x \<and>
      validateSchemaField h T (keyConcat key (fst x)) (snd x) = Inr (snd y)" for x y
    by (cases x; cases y; cases "validateSchemaField h T (keyConcat key (fst x)) (snd x)") auto
  have "map_sum id JObj (first_throw (map ?g (ownEntries val))) = Inr out \<longleftrightarrow>
      (\<exists>qs. out = JObj qs \<and> list_all2 (\<lambda>x y. ?g x = Inr y) (ownEntries val) qs)"
    unfolding first_throw_Inr_iff [symmetric]
    by (cases "first_throw (map ?g (ownEntries val))") auto
  then show ?thesis
    unfolding g by (cases "isPlainObject val") simp_all
qed

lemma array_Inr_iff:
  "validateSchemaField h (Schemas_array T) key val = Inr out \<longleftrightarrow>
     (\<exists>xs ys. val = JArr xs \<and> out = JArr ys \<and>
        list_all2 (\<lambda>x y. validateSchemaField h T key x = Inr y) xs ys)"
proof (cases val)
  case (JArr xs)
  then show ?thesis
    unfolding first_throw_Inr_iff [symmetric]
    by (cases "first_throw (map (validateSchemaField h T key) xs)") auto
qed simp_all

lemma baseArray_Inr_iff:
  "validateSchemaField h (Schemas_baseArray T) key val = Inr out \<longleftrightarrow>
     (\<exists>xs ys. val = JArr xs \<and> out = JArr ys \<and>
        list_all2 (\<lambda>x y. validateSchemaField h T key x = Inr y) xs ys)"
proof (cases val)
  case (JArr xs)
  then show ?thesis
    unfolding first_throw_Inr_iff [symmetric]
    by (cases "first_throw (map (validateSchemaField h T key) xs)") auto
qed simp_all

lemma all_ok_first_throw:
  assumes "\<forall>x \<in> set xs. \<exists>y. g x = Inr y"
  shows "\<exists>ys. first_throw (map g xs) = Inr ys"
proof -
  from all_ok_map_Inr [OF assms] obtain oks where "map g xs = map Inr oks"
    by blast
  then show ?thesis
    by (auto simp: first_throw_map_Inr)
qed

lemma getProp_own:
  "f \<notin> set Object_prototype_properties \<Longrightarrow> getProp (JObj ps) f = own_value ps f"
  by (auto simp: own_value_def Object_prototype_properties_def Object_prototype_get_def
      split: option.splits)

lemma list_all2_results:
  assumes "list_all2 P xs ys" and "\<And>x y. x \<in> set xs \<Longrightarrow> P x y \<Longrightarrow> Q y x"
  shows "list_all2 Q ys xs"
  using assms by (induction xs ys rule: list_all2_induct) auto

lemma own_value_cases:
  obtains "map_of ps k = None" "own_value ps k = JUndefined"
  | x where "map_of ps k = Some x" "own_value ps k = x" "(k, x) \<in> set ps"
  by (cases "map_of ps k") (auto simp: own_value_def dest: map_of_SomeD)

lemma accepted_same_value:
  "date_free S \<Longrightarrow> no_inherited_fields S \<Longrightarrow>
   v = JUndefined \<or> json_value v \<and> no_inherited_keys v \<Longrightarrow>
   validateSchemaField h S key v = Inr r \<Longrightarrow> same_value r v"
proof (induction S arbitrary: key v r)
  case Schemas_number
  then show ?case by (auto simp: same_value_refl split: if_splits)
next
  case (Schemas_string nonEmpty)
  then show ?case by (auto simp: same_value_refl split: if_splits)
next
  case (Schemas_literal lit)
  then show ?case by (auto simp: same_value_refl split: if_splits)
next
  case Schemas_nulll
  then show ?case by (auto simp: same_value_refl split: if_splits)
next
  case (Schemas_boolean opts)
  then show ?case by (auto simp: same_value_refl split: if_splits option.splits)
next
  case Schemas_date
  then show ?case by simp
next
  case (Schemas_optional S)
  show ?case
  proof (cases "v = JUndefined")
    case True
    with Schemas_optional.prems show ?thesis by simp
  next
    case False
    with Schemas_optional.prems Schemas_optional.IH [of v key r] show ?thesis by simp
  qed
next
  case (Schemas_values T)
  from Schemas_values.prems(4) obtain qs where plain: "isPlainObject v" and r: "r = JObj qs"
    and rel: "list_all2 (\<lambda>x y. fst y = fst x \<and>
          validateSchemaField h T (keyConcat key (fst x)) (snd x) = Inr (snd y))
          (ownEntries v) qs"
    unfolding values_Inr_iff by blast
  from plain Schemas_values.prems(3) obtain ps where v: "v = JObj ps"
    by (cases v) auto
  have "same_value (own_value qs k) (own_value ps k)" for k
  proof -
    from entries_results_lookup [OF rel, of k] consider
      (none) "map_of (ownEntries v) k = None" "map_of qs k = None"
    | (some) x w where "map_of (ownEntries v) k = Some x" "map_of qs k = Some w"
        "validateSchemaField h T (keyConcat key k) x = Inr w"
      by auto
    then show ?thesis
    proof cases
      case none
      with v show ?thesis by (simp add: own_value_def)
    next
      case some
      with v have "(k, x) \<in> set ps"
        by (auto dest: map_of_SomeD)
      with v Schemas_values.prems(3) have "json_value x \<and> no_inherited_keys x"
        by auto
      with some Schemas_values.prems(1,2) Schemas_values.IH [of x "keyConcat key k" w]
      have "same_value w x" by simp
      with some v show ?thesis by (simp add: own_value_def)
    qed
  qed
  with r v show ?case by simp
next
  case (Schemas_or A B)
  show ?case
  proof (cases "validateSchemaField h A key v")
    case (Inr a)
    with Schemas_or.prems Schemas_or.IH(1) [of v key r] show ?thesis by simp
  next
    case (Inl e)
    with Schemas_or.prems Schemas_or.IH(2) [of v key r] show ?thesis by simp
  qed
next
  case (Schemas_baseArray T)
  from Schemas_baseArray.prems(4) obtain xs ys where v: "v = JArr xs" and r: "r = JArr ys"
    and rel: "list_all2 (\<lambda>x y. validateSchemaField h T key x = Inr y) xs ys"
    unfolding baseArray_Inr_iff by blast
  have "list_all2 same_value ys xs"
  proof (rule list_all2_results [OF rel])
    fix x y
    assume "x \<in> set xs" "validateSchemaField h T key x = Inr y"
    with v Schemas_baseArray.prems(1,2,3) Schemas_baseArray.IH [of x key y]
    show "same_value y x" by auto
  qed
  with v r show ?case by simp
next
  case (Schemas_array T)
  from Schemas_array.prems(4) obtain xs ys where v: "v = JArr xs" and r: "r = JArr ys"
    and rel: "list_all2 (\<lambda>x y. validateSchemaField h T key x = Inr y) xs ys"
    unfolding array_Inr_iff by blast
  have "list_all2 same_value ys xs"
  proof (rule list_all2_results [OF rel])
    fix x y
    assume "x \<in> set xs" "validateSchemaField h T key x = Inr y"
    with v Schemas_array.prems(1,2,3) Schemas_array.IH [of x key y]
    show "same_value y x" by auto
  qed
  with v r show ?case by simp
next
  case (SchemaType fs)
  from SchemaType.prems(4) have "validateSchema h (Some fs) v key = Inr r"
    by simp
  then obtain qs where plain: "isPlainObject v"
    and declared: "\<forall>k \<in> set (map fst (ownEntries v)). js_in k fs"
    and r: "r = JObj qs"
    and rel: "list_all2 (\<lambda>x y. fst y = fst x \<and>
          validateSchemaField h (snd x) (keyConcat key (fst x)) (getProp v (fst x)) =
            Inr (snd y)) fs qs"
    unfolding validateSchema_Inr_iff by blast
  from plain SchemaType.prems(3) obtain ps where v: "v = JObj ps"
    by (cases v) auto
  from v SchemaType.prems(3) have ps: "json_value x \<and> no_inherited_keys x"
    and names: "k \<notin> set Object_prototype_properties" if "(k, x) \<in> set ps" for k x
    using that by auto
  have sub: "k \<in> set (map fst fs)" if "k \<in> set (map fst ps)" for k
  proof -
    from that declared v have "js_in k fs" by auto
    moreover from that names have "k \<notin> set Object_prototype_properties" by auto
    ultimately show ?thesis by (simp add: js_in_def)
  qed
  have "same_value (own_value qs k) (own_value ps k)"
    if "k \<in> set (map fst qs) \<union> set (map fst ps)" for k
  proof -
    from that sub fields_results_keys [OF rel] have "k \<in> set (map fst fs)"
      by auto
    then have "map_of fs k \<noteq> None"
      by (simp add: map_of_eq_None_iff)
    with entries_results_lookup [OF rel, of k] obtain s w
      where s: "map_of fs k = Some s" and w: "map_of qs k = Some w"
        and ok: "validateSchemaField h s (keyConcat key k) (getProp v k) = Inr w"
      by auto
    from s have mem: "(k, s) \<in> set fs"
      by (rule map_of_SomeD)
    with SchemaType.prems(1,2) have s_ok: "date_free s" "no_inherited_fields s"
      and k: "k \<notin> set Object_prototype_properties"
      by auto
    from k have get: "getProp v k = own_value ps k"
      unfolding v by (rule getProp_own)
    have "own_value ps k = JUndefined \<or>
        json_value (own_value ps k) \<and> no_inherited_keys (own_value ps k)"
      using ps by (cases rule: own_value_cases [of ps k]) auto
    with SchemaType.IH [of "(k, s)" s "own_value ps k" "keyConcat key k" w] mem s_ok ok get
    have "same_value w (own_value ps k)" by simp
    with w show ?thesis by (simp add: own_value_def)
  qed
  with r v show ?case by simp
next
  case Schema_neither
  then show ?case by simp
qed

lemma conforms_accepted:
  "no_inherited_fields S \<Longrightarrow> conforms S v \<Longrightarrow> \<exists>r. validateSchemaField h S key v = Inr r"
proof (induction S arbitrary: key v)
  case Schemas_number
  then show ?case by (cases v) auto
next
  case (Schemas_string nonEmpty)
  then show ?case by (cases v) auto
next
  case (Schemas_literal lit)
  then show ?case by simp
next
  case Schemas_nulll
  then show ?case by simp
next
  case (Schemas_boolean opts)
  then show ?case by (cases v; cases opts) auto
next
  case Schemas_date
  then show ?case by simp
next
  case (Schemas_optional S)
  then show ?case by (cases "v = JUndefined") auto
next
  case (Schemas_values T)
  from Schemas_values.prems(2) obtain ps where v: "v = JObj ps"
    and all: "\<forall>(k, x) \<in> set ps. conforms T x"
    by (cases v) auto
  let ?g = "\<lambda>(innerKey, innerVal). map_sum id (Pair innerKey)
      (validateSchemaField h T (keyConcat key innerKey) innerVal)"
  have "\<exists>y. ?g p = Inr y" if "p \<in> set ps" for p
  proof -
    obtain k x where p: "p = (k, x)" by (cases p)
    with that all have "conforms T x" by auto
    with Schemas_values.IH [of x "keyConcat key k"] Schemas_values.prems(1)
    obtain r where "validateSchemaField h T (keyConcat key k) x = Inr r" by auto
    with p show ?thesis by simp
  qed
  then have "\<exists>ys. first_throw (map ?g ps) = Inr ys"
    by (intro all_ok_first_throw) blast
  with v show ?case by auto
next
  case (Schemas_or A B)
  show ?case
  proof (cases "validateSchemaField h A key v")
    case (Inr a)
    then show ?thesis by simp
  next
    case (Inl e)
    with Schemas_or.IH(1) [of v key] Schemas_or.prems(1) have "\<not> conforms A v"
      by auto
    with Schemas_or.prems(2) have "conforms B v"
      by simp
    with Schemas_or.IH(2) [of v key] Schemas_or.prems(1) Inl show ?thesis
      by auto
  qed
next
  case (Schemas_baseArray T)
  from Schemas_baseArray.prems(2) obtain xs where v: "v = JArr xs"
    and all: "\<forall>x \<in> set xs. conforms T x"
    by (cases v) auto
  with Schemas_baseArray.IH Schemas_baseArray.prems(1)
  have "\<forall>x \<in> set xs. \<exists>y. validateSchemaField h T key x = Inr y"
    by auto
  then have "\<exists>ys. first_throw (map (validateSchemaField h T key) xs) = Inr ys"
    by (rule all_ok_first_throw)
  with v show ?case by auto
next
  case (Schemas_array T)
  from Schemas_array.prems(2) obtain xs where v: "v = JArr xs"
    and all: "\<forall>x \<in> set xs. conforms T x"
    by (cases v) auto
  with Schemas_array.IH Schemas_array.prems(1)
  have "\<forall>x \<in> set xs. \<exists>y. validateSchemaField h T key x = Inr y"
    by auto
  then have "\<exists>ys. first_throw (map (validateSchemaField h T key) xs) = Inr ys"
    by (rule all_ok_first_throw)
  with v show ?case by auto
next
  case (SchemaType fs)
  from SchemaType.prems(2) obtain ps where v: "v = JObj ps"
    and declared: "\<forall>k \<in> set (map fst ps). k \<in> set (map fst fs)"
    and all: "\<forall>(f, s) \<in> set fs. conforms s (own_value ps f)"
    by (cases v) auto
  let ?g = "\<lambda>(f, s). map_sum id (Pair f)
      (validateSchemaField h s (keyConcat key f) (getProp v f))"
  have "\<exists>y. ?g p = Inr y" if "p \<in> set fs" for p
  proof -
    obtain f s where p: "p = (f, s)" by (cases p)
    with that all have c: "conforms s (own_value ps f)" by auto
    from p that SchemaType.prems(1) have n: "no_inherited_fields s"
      and f: "f \<notin> set Object_prototype_properties"
      by auto
    from f have "getProp v f = own_value ps f"
      unfolding v by (rule getProp_own)
    with SchemaType.IH [of p s "own_value ps f" "keyConcat key f"] p that c n
    obtain r where "validateSchemaField h s (keyConcat key f) (getProp v f) = Inr r"
      by auto
    with p show ?thesis by simp
  qed
  then have "\<exists>ys. first_throw (map ?g fs) = Inr ys"
    by (intro all_ok_first_throw) blast
  moreover from declared have "find (\<lambda>field. \<not> js_in field fs) (map fst ps) = None"
    by (auto simp: find_None_iff js_in_def)
  ultimately show ?case
    using v by auto
next
  case Schema_neither
  then show ?case by simp
qed

text \<open>What holds where no inherited name is involved: a conforming JSON-compatible value is
  accepted and comes back with the same content.\<close>

lemma conforming_value_accepted:
  assumes "date_free S" and "no_inherited_fields S"
    and "json_value v" and "no_inherited_keys v"
    and "conforms S v"
  shows "\<exists>r. validateSchemaField h S key v = Inr r \<and> same_value r v"
proof -
  from conforms_accepted [OF assms(2,5)] obtain r
    where r: "validateSchemaField h S key v = Inr r" by blast
  from assms(3,4) have "v = JUndefined \<or> json_value v \<and> no_inherited_keys v"
    by simp
  from accepted_same_value [OF assms(1,2) this r] r show ?thesis
    by blast
qed

text \<open>
  C9 at inputs where the code departs from it. The value \<^verbatim>\<open>{}\<close> conforms to
  \<^verbatim>\<open>{ valueOf: optional(number()) }\<close>, yet \<open>obj["valueOf"]\<close> is the inherited function, not
  \<open>undefined\<close>, and validation fails. The value \<^verbatim>\<open>{"toString":1}\<close> conforms to
  \<^verbatim>\<open>or({}, values(number()))\<close> through the second alternative, yet the first accepts it,
  since \<open>"toString" in schema\<close> holds, and the result is the empty object.
\<close>

theorem inherited_name_breaks_conforming_value:
  "date_free (SchemaType [(''valueOf'', Schemas_optional Schemas_number)]) \<and>
   json_value (JObj [] :: 'n jsval) \<and>
   conforms (SchemaType [(''valueOf'', Schemas_optional Schemas_number)]) (JObj [] :: 'n jsval) \<and>
   validateSchemaField h (SchemaType [(''valueOf'', Schemas_optional Schemas_number)]) []
     (JObj [] :: 'n jsval) = Inl (Field_must_be_a_number ''valueOf'') \<and>
   date_free (Schemas_or (SchemaType []) (Schemas_values Schemas_number)) \<and>
   json_value (JObj [(''toString'', JNum n)]) \<and>
   conforms (Schemas_or (SchemaType []) (Schemas_values Schemas_number))
     (JObj [(''toString'', JNum n)]) \<and>
   validateSchemaField h (Schemas_or (SchemaType []) (Schemas_values Schemas_number)) []
     (JObj [(''toString'', JNum n)]) = Inr (JObj []) \<and>
   \<not> same_value (JObj []) (JObj [(''toString'', JNum n)])"
  by (simp add: own_value_def js_in_def keyConcat_def Object_prototype_get_def
      Object_prototype_functions_def Object_prototype_properties_def)

theorem inherited_name_breaks_conforming_value_witness:
  "validateSchemaField example_host (SchemaType [(''valueOf'', Schemas_optional Schemas_number)])
     [] (JObj []) = Inl (Field_must_be_a_number ''valueOf'') \<and>
   validateSchemaField example_host (Schemas_or (SchemaType []) (Schemas_values Schemas_number))
     [] (JObj [(''toString'', JNum 1)]) = Inr (JObj [])"
  using inherited_name_breaks_conforming_value [where h = example_host and n = 1]
  by blast

end
